theory Spec2Isabelle
  imports Complex_Main
begin

section \<open>Python values and exceptions\<close>

text \<open>
  The exceptions that the modelled functions of \<^verbatim>\<open>TidePlotter.py\<close> can meet. Every
  \<^verbatim>\<open>raise\<close> of the source or of a library call it makes is a value \<open>Inl e\<close> of a
  result type \<open>error + 'a\<close>.
\<close>

datatype error =
    ValueError | OverflowError | IndexError | StopIteration
  | PermissionError | IsADirectoryError

text \<open>
  A Python float is written \<open>Dec m s\<close> and stands for the decimal fraction
  \<open>m / 10 ^ s\<close>, kept in lowest terms by \<open>norm_dec\<close> (no trailing zero in the
  fraction), so that two floats are the same value exactly when they are the same
  term. The rounding of binary64 is not represented: \<open>Dec m s\<close> names the float that
  Python computes for that decimal fraction.
\<close>

datatype pyfloat = Dec int nat


fun norm_dec :: "int \<Rightarrow> nat \<Rightarrow> pyfloat" where
  "norm_dec m 0 = Dec m 0"
| "norm_dec m (Suc s) = (if m mod 10 = 0 then norm_dec (m div 10) s else Dec m (Suc s))"

datatype pyval = PyStr string | PyInt int | PyFloat pyfloat

section \<open>Characters and decimal numerals\<close>

text \<open>
  A text is a \<open>string\<close>, a list of characters with codes from 0 to 255; \<open>length\<close>
  counts them as \<^verbatim>\<open>len\<close> counts the characters of a Python \<^verbatim>\<open>str\<close>. Among these
  characters the digits that \<^verbatim>\<open>\d\<close> matches and that \<^verbatim>\<open>int\<close> reads are \<^verbatim>\<open>0\<close> to
  \<^verbatim>\<open>9\<close>.
\<close>

definition is_digit :: "char \<Rightarrow> bool" where
  \<comment> \<open>\<^verbatim>\<open>\d\<close> on the characters of the model: \<^verbatim>\<open>0\<close> to \<^verbatim>\<open>9\<close>\<close>
  "is_digit c \<longleftrightarrow> 48 \<le> (of_char c :: nat) \<and> (of_char c :: nat) \<le> 57"

definition is_letter :: "char \<Rightarrow> bool" where
  \<comment> \<open>\<^verbatim>\<open>[A-Za-z]\<close>\<close>
  "is_letter c \<longleftrightarrow>
     (65 \<le> (of_char c :: nat) \<and> (of_char c :: nat) \<le> 90) \<or>
     (97 \<le> (of_char c :: nat) \<and> (of_char c :: nat) \<le> 122)"

definition digit_val :: "char \<Rightarrow> nat" where
  "digit_val c = of_char c - 48"

definition nat_of_digits :: "string \<Rightarrow> nat" where
  "nat_of_digits ds = foldl (\<lambda>a c. 10 * a + digit_val c) 0 ds"

definition int_max_str_digits :: nat where
  \<comment> \<open>CPython's default limit on the digits of a decimal string given to \<^verbatim>\<open>int()\<close>
      (\<^verbatim>\<open>sys.int_info.default_max_str_digits\<close>, since Python 3.11)\<close>
  "int_max_str_digits = 4300"

definition py_int :: "string \<Rightarrow> error + int" where
  \<comment> \<open>\<^verbatim>\<open>int(value)\<close> on an optional minus sign and decimal digits; any other
      spelling is answered with \<open>ValueError\<close>\<close>
  "py_int s =
     (let neg = (s \<noteq> [] \<and> hd s = CHR ''-'');
          ds = (if neg then tl s else s)
      in if ds = [] \<or> \<not> list_all is_digit ds then Inl ValueError
         else if length ds > int_max_str_digits then Inl ValueError
         else Inr (if neg then - int (nat_of_digits ds) else int (nat_of_digits ds)))"

definition float_overflow_bound :: int where
  \<comment> \<open>the least integer that no longer rounds to a finite binary64\<close>
  "float_overflow_bound = 2 ^ 1024 - 2 ^ 970"

definition truediv_1000 :: "int \<Rightarrow> error + pyfloat" where
  \<comment> \<open>\<^verbatim>\<open>n / 1000.0\<close>: the integer is converted to a float first, which raises
      \<open>OverflowError\<close> when it is too large\<close>
  "truediv_1000 n =
     (if \<bar>n\<bar> \<ge> float_overflow_bound then Inl OverflowError else Inr (norm_dec n 3))"

section \<open>The token scan and \<^verbatim>\<open>parse_message\<close>\<close>

text \<open>
  \<^verbatim>\<open>re.findall(r'([A-Za-z])(-?\d+)', message)\<close>: the text is scanned from the left;
  at a letter followed by an optional minus sign and at least one digit the pair
  (letter, number text) is recorded and the scan goes on after the last digit;
  anywhere else it goes on one character further.
\<close>

definition match_number :: "string \<Rightarrow> (string \<times> string) option" where
  \<comment> \<open>\<^verbatim>\<open>-?\d+\<close> at the head of the text: the match and what follows it\<close>
  "match_number cs =
     (let sg = (if cs \<noteq> [] \<and> hd cs = CHR ''-'' then ''-'' else []);
          body = drop (length sg) cs;
          ds = takeWhile is_digit body
      in if ds = [] then None else Some (sg @ ds, dropWhile is_digit body))"

function findall :: "string \<Rightarrow> (char \<times> string) list" where
  "findall [] = []"
| "findall (c # cs) =
     (if is_letter c then
        (case match_number cs of
           Some (v, rest) \<Rightarrow> (c, v) # findall rest
         | None \<Rightarrow> findall cs)
      else findall cs)"
  by pat_completeness auto
termination
proof (relation "measure length")
  fix c cs p v rest
  assume "match_number cs = Some p" and "(v, rest) = p"
  then have "rest = dropWhile is_digit
      (drop (length (if cs \<noteq> [] \<and> hd cs = CHR ''-'' then ''-'' else [])) cs)"
    by (auto simp: match_number_def Let_def split: if_splits)
  then have "length rest \<le> length cs"
    by (metis length_dropWhile_le length_drop diff_le_self order_trans)
  then show "(rest, c # cs) \<in> measure length" by simp
qed auto

definition field_map :: "char \<Rightarrow> string option" where
  "field_map key =
     (if key = CHR ''V'' then Some ''battery_voltage''
      else if key = CHR ''s'' then Some ''solar_voltage''
      else if key = CHR ''S'' then Some ''sensor_id''
      else if key = CHR ''C'' then Some ''msg_count''
      else if key = CHR ''U'' then Some ''ultrasonic_range''
      else if key = CHR ''r'' then Some ''rssi''
      else if key = CHR ''n'' then Some ''signal_to_noise_ratio''
      else None)"

definition convert :: "char \<Rightarrow> string \<Rightarrow> error + pyval" where
  \<comment> \<open>the right-hand sides of lines 89 and 91\<close>
  "convert key v =
     (case py_int v of
        Inl e \<Rightarrow> Inl e
      | Inr n \<Rightarrow>
          if key = CHR ''V'' \<or> key = CHR ''s'' then
            (case truediv_1000 n of Inl e \<Rightarrow> Inl e | Inr f \<Rightarrow> Inr (PyFloat f))
          else Inr (PyInt n))"

fun store_matches ::
  "(char \<times> string) list \<Rightarrow> (string \<rightharpoonup> pyval) \<Rightarrow> error + (string \<rightharpoonup> pyval)" where
  "store_matches [] data = Inr data"
| "store_matches ((key, v) # ms) data =
     (case field_map key of
        None \<Rightarrow> store_matches ms data
      | Some name \<Rightarrow>
          (case convert key v of
             Inl e \<Rightarrow> Inl e
           | Inr x \<Rightarrow> store_matches ms (data(name \<mapsto> x))))"

definition parse_message :: "string \<Rightarrow> error + (string \<rightharpoonup> pyval)" where
  "parse_message message = store_matches (findall message) Map.empty"

section \<open>Numbers and time stamps as text\<close>

definition digit_char :: "nat \<Rightarrow> char" where
  "digit_char n = char_of (48 + n)"

fun pad_digits :: "nat \<Rightarrow> nat \<Rightarrow> string" where
  \<comment> \<open>the last \<open>w\<close> decimal digits of \<open>n\<close>, with leading zeros\<close>
  "pad_digits 0 n = []"
| "pad_digits (Suc w) n = pad_digits w (n div 10) @ [digit_char (n mod 10)]"

function digits_of :: "nat \<Rightarrow> string" where
  "digits_of n = (if n < 10 then [digit_char n] else digits_of (n div 10) @ [digit_char (n mod 10)])"
  by pat_completeness auto
termination
  by (relation "measure id") auto

declare digits_of.simps [simp del]

definition str_int :: "int \<Rightarrow> string" where
  \<comment> \<open>\<^verbatim>\<open>str(n)\<close> of an integer\<close>
  "str_int n = (if n < 0 then CHR ''-'' # digits_of (nat (- n)) else digits_of (nat n))"

fun repr_float :: "pyfloat \<Rightarrow> string" where
  \<comment> \<open>\<^verbatim>\<open>str(x)\<close> of a float in positional notation, which is what Python prints for
      a float of at most 15 significant digits between \<^verbatim>\<open>1e-4\<close> and \<^verbatim>\<open>1e16\<close>\<close>
  "repr_float (Dec m s) =
     (if m < 0 then ''-'' else []) @ digits_of (nat \<bar>m\<bar> div 10 ^ s) @ ''.'' @
     (if s = 0 then ''0'' else pad_digits s (nat \<bar>m\<bar> mod 10 ^ s))"

fun py_str :: "pyval \<Rightarrow> string" where
  "py_str (PyStr s) = s"
| "py_str (PyInt n) = str_int n"
| "py_str (PyFloat f) = repr_float f"

definition py_float :: "string \<Rightarrow> error + pyfloat" where
  \<comment> \<open>\<^verbatim>\<open>float(cell)\<close> on a plain decimal numeral: an optional sign, digits, and an
      optional point with digits. Exponents, \<^verbatim>\<open>inf\<close>, \<^verbatim>\<open>nan\<close>, underscores and
      surrounding white space, which Python also reads, are not part of the model\<close>
  "py_float cell =
     (let neg = (cell \<noteq> [] \<and> hd cell = CHR ''-'');
          r = (if cell \<noteq> [] \<and> (hd cell = CHR ''-'' \<or> hd cell = CHR ''+'') then tl cell else cell);
          ip = takeWhile is_digit r;
          r2 = dropWhile is_digit r;
          fp = (if r2 \<noteq> [] \<and> hd r2 = CHR ''.'' then takeWhile is_digit (tl r2) else []);
          r3 = (if r2 \<noteq> [] \<and> hd r2 = CHR ''.'' then dropWhile is_digit (tl r2) else r2);
          n = int (nat_of_digits (ip @ fp))
      in if r3 \<noteq> [] \<or> ip @ fp = [] then Inl ValueError
         else Inr (norm_dec (if neg then - n else n) (length fp)))"

record datetime =
  year :: nat
  month :: nat
  day :: nat
  hour :: nat
  minute :: nat
  second :: nat
  microsecond :: nat

definition is_leap :: "nat \<Rightarrow> bool" where
  "is_leap y \<longleftrightarrow> y mod 4 = 0 \<and> (y mod 100 \<noteq> 0 \<or> y mod 400 = 0)"

definition days_in_month :: "nat \<Rightarrow> nat \<Rightarrow> nat" where
  "days_in_month y m =
     (if m = 2 then (if is_leap y then 29 else 28)
      else if m = 4 \<or> m = 6 \<or> m = 9 \<or> m = 11 then 30 else 31)"

definition valid_datetime :: "datetime \<Rightarrow> bool" where
  \<comment> \<open>the values a \<^verbatim>\<open>datetime\<close> object can hold\<close>
  "valid_datetime t \<longleftrightarrow>
     1 \<le> year t \<and> year t \<le> 9999 \<and> 1 \<le> month t \<and> month t \<le> 12 \<and>
     1 \<le> day t \<and> day t \<le> days_in_month (year t) (month t) \<and>
     hour t < 24 \<and> minute t < 60 \<and> second t < 60 \<and> microsecond t < 1000000"

definition strftime :: "datetime \<Rightarrow> string" where
  \<comment> \<open>\<^verbatim>\<open>t.strftime('%Y-%m-%d %H:%M:%S')\<close>, for a year of four digits\<close>
  "strftime t =
     pad_digits 4 (year t) @ ''-'' @ pad_digits 2 (month t) @ ''-'' @ pad_digits 2 (day t) @
     '' '' @ pad_digits 2 (hour t) @ '':'' @ pad_digits 2 (minute t) @ '':'' @
     pad_digits 2 (second t)"

definition is_space :: "char \<Rightarrow> bool" where
  \<comment> \<open>\<^verbatim>\<open>\s\<close>\<close>
  "is_space c \<longleftrightarrow>
     (let n = (of_char c :: nat)
      in (9 \<le> n \<and> n \<le> 13) \<or> (28 \<le> n \<and> n \<le> 32) \<or> n = 133 \<or> n = 160)"

definition digit_field :: "nat \<Rightarrow> nat \<Rightarrow> string \<Rightarrow> (nat \<times> string) option" where
  \<comment> \<open>a run of digits, between \<open>lo\<close> and \<open>hi\<close> of them, and what follows it\<close>
  "digit_field lo hi cs =
     (let ds = takeWhile is_digit cs
      in if lo \<le> length ds \<and> length ds \<le> hi
         then Some (nat_of_digits ds, dropWhile is_digit cs) else None)"

definition day_field :: "string \<Rightarrow> (nat \<times> string) option" where
  \<comment> \<open>\<^verbatim>\<open>%d\<close> also reads a space and one digit from 1 to 9\<close>
  "day_field cs =
     (if length cs \<ge> 2 \<and> hd cs = CHR '' '' \<and> is_digit (cs ! 1) \<and> cs ! 1 \<noteq> CHR ''0''
      then Some (digit_val (cs ! 1), drop 2 cs)
      else digit_field 1 2 cs)"

definition literal :: "char \<Rightarrow> string \<Rightarrow> string option" where
  "literal c cs = (if cs \<noteq> [] \<and> hd cs = c then Some (tl cs) else None)"

definition spaces :: "string \<Rightarrow> string option" where
  \<comment> \<open>\<^verbatim>\<open>\s+\<close>\<close>
  "spaces cs = (if cs \<noteq> [] \<and> is_space (hd cs) then Some (dropWhile is_space cs) else None)"

definition scan_datetime :: "string \<Rightarrow> datetime option" where
  \<comment> \<open>the fields of \<^verbatim>\<open>'%Y-%m-%d %H:%M:%S'\<close>, up to the end of the text\<close>
  "scan_datetime cs =
     Option.bind (digit_field 4 4 cs) (\<lambda>(y, r1).
     Option.bind (literal (CHR ''-'') r1) (\<lambda>r2.
     Option.bind (digit_field 1 2 r2) (\<lambda>(mo, r3).
     Option.bind (literal (CHR ''-'') r3) (\<lambda>r4.
     Option.bind (day_field r4) (\<lambda>(d, r5).
     Option.bind (spaces r5) (\<lambda>r6.
     Option.bind (digit_field 1 2 r6) (\<lambda>(h, r7).
     Option.bind (literal (CHR '':'') r7) (\<lambda>r8.
     Option.bind (digit_field 1 2 r8) (\<lambda>(mi, r9).
     Option.bind (literal (CHR '':'') r9) (\<lambda>r10.
     Option.bind (digit_field 1 2 r10) (\<lambda>(se, r11).
       if r11 = [] then
         Some \<lparr>year = y, month = mo, day = d, hour = h, minute = mi, second = se,
               microsecond = 0\<rparr>
       else None)))))))))))"

definition strptime :: "string \<Rightarrow> error + datetime" where
  \<comment> \<open>\<^verbatim>\<open>datetime.strptime(cell, '%Y-%m-%d %H:%M:%S')\<close>\<close>
  "strptime cell =
     (case scan_datetime cell of
        None \<Rightarrow> Inl ValueError
      | Some t \<Rightarrow> if valid_datetime t then Inr t else Inl ValueError)"

section \<open>The data file\<close>

text \<open>
  What is found at the path \<^verbatim>\<open>data_file\<close>: nothing, a directory, or a regular file.
  The content of a file is the list of its rows as \<^verbatim>\<open>csv.reader\<close> returns them and
  as \<^verbatim>\<open>csv.writer\<close> writes them, each row a list of cells; the quoting and the line
  ends of the text underneath are not represented.
\<close>

datatype node = NoEntry | Directory | RegularFile "string list list"

record fs =
  node :: node
  readable :: bool
  writable :: bool

type_synonym measurement = "datetime \<times> pyval \<times> pyval \<times> pyval \<times> pyval"

definition cell :: "string list \<Rightarrow> nat \<Rightarrow> error + string" where
  \<comment> \<open>\<^verbatim>\<open>row[i]\<close>\<close>
  "cell row i = (if i < length row then Inr (row ! i) else Inl IndexError)"

definition float_cell :: "string list \<Rightarrow> nat \<Rightarrow> error + pyval" where
  \<comment> \<open>\<^verbatim>\<open>float(row[i])\<close>\<close>
  "float_cell row i =
     (case cell row i of
        Inl e \<Rightarrow> Inl e
      | Inr c \<Rightarrow> (case py_float c of Inl e \<Rightarrow> Inl e | Inr f \<Rightarrow> Inr (PyFloat f)))"

definition decode_row :: "string list \<Rightarrow> error + measurement" where
  \<comment> \<open>the tuple of line 50, its components evaluated from left to right\<close>
  "decode_row row =
     (case cell row 0 of Inl e \<Rightarrow> Inl e | Inr c0 \<Rightarrow>
      case strptime c0 of Inl e \<Rightarrow> Inl e | Inr t \<Rightarrow>
      case float_cell row 1 of Inl e \<Rightarrow> Inl e | Inr b \<Rightarrow>
      case float_cell row 2 of Inl e \<Rightarrow> Inl e | Inr s \<Rightarrow>
      case float_cell row 3 of Inl e \<Rightarrow> Inl e | Inr u \<Rightarrow>
      case float_cell row 4 of Inl e \<Rightarrow> Inl e | Inr r \<Rightarrow> Inr (t, b, s, u, r))"

fun decode_rows :: "string list list \<Rightarrow> error + measurement list" where
  \<comment> \<open>the list comprehension of line 50: the first row that fails ends it\<close>
  "decode_rows [] = Inr []"
| "decode_rows (row # rows) =
     (case decode_row row of
        Inl e \<Rightarrow> Inl e
      | Inr m \<Rightarrow> (case decode_rows rows of Inl e \<Rightarrow> Inl e | Inr ms \<Rightarrow> Inr (m # ms)))"

definition read_body :: "fs \<Rightarrow> error + measurement list option" where
  \<comment> \<open>lines 46 to 50, inside the \<^verbatim>\<open>try\<close>; \<open>Inr None\<close> when the \<^verbatim>\<open>if\<close> is not taken\<close>
  "read_body f =
     (case node f of
        NoEntry \<Rightarrow> Inr None
      | Directory \<Rightarrow> Inl IsADirectoryError
      | RegularFile rows \<Rightarrow>
          if \<not> readable f then Inl PermissionError
          else (case rows of
                  [] \<Rightarrow> Inl StopIteration
                | header # rest \<Rightarrow>
                    (case decode_rows rest of Inl e \<Rightarrow> Inl e | Inr ms \<Rightarrow> Inr (Some ms))))"

definition read_data_from_file :: "fs \<Rightarrow> error + measurement list" where
  \<comment> \<open>\<^verbatim>\<open>except Exception: pass\<close>, then \<^verbatim>\<open>return []\<close>\<close>
  "read_data_from_file f =
     (case read_body f of
        Inl e \<Rightarrow> Inr []
      | Inr None \<Rightarrow> Inr []
      | Inr (Some ms) \<Rightarrow> Inr ms)"

definition header_row :: "pyval list" where
  "header_row =
     [PyStr ''Timestamp'', PyStr ''Battery Voltage (V)'', PyStr ''Solar Voltage (V)'',
      PyStr ''Ultrasonic Range'', PyStr ''RSSI'']"

definition writerow :: "pyval list \<Rightarrow> string list" where
  "writerow row = map py_str row"

definition write_body :: "fs \<Rightarrow> pyval list list \<Rightarrow> error + fs" where
  \<comment> \<open>lines 58 to 64, inside the \<^verbatim>\<open>try\<close>\<close>
  "write_body f data =
     (case node f of
        Directory \<Rightarrow> Inl IsADirectoryError
      | NoEntry \<Rightarrow>
          if \<not> writable f then Inl PermissionError
          else Inr (f\<lparr>node := RegularFile (writerow header_row # map writerow data)\<rparr>)
      | RegularFile rows \<Rightarrow>
          if \<not> writable f then Inl PermissionError
          else Inr (f\<lparr>node := RegularFile (rows @ map writerow data)\<rparr>))"

definition write_data_to_file :: "fs \<Rightarrow> pyval list list \<Rightarrow> error + fs" where
  \<comment> \<open>\<^verbatim>\<open>except Exception: pass\<close>: the file is left as it was\<close>
  "write_data_to_file f data =
     (case write_body f data of Inl e \<Rightarrow> Inr f | Inr f' \<Rightarrow> Inr f')"

section \<open>The reading loop and the plotted window\<close>

datatype event = MessageReceived string | DataUpdated "measurement list"

record reader =
  data :: "measurement list"
  data_file :: fs
  emitted :: "event list"

definition prefilter_rejects :: "string \<Rightarrow> bool" where
  \<comment> \<open>the condition of line 116; \<^verbatim>\<open>or\<close> evaluates its right side only when the
      left one is false, so \<^verbatim>\<open>decoded_line[0]\<close> is read on a non-empty text only\<close>
  "prefilter_rejects l =
     (if length l < 10 then True
      else if hd l \<noteq> CHR ''S'' then True
      else length l > 40)"

definition emit_message :: "datetime \<Rightarrow> string \<Rightarrow> reader \<Rightarrow> reader" where
  \<comment> \<open>line 115\<close>
  "emit_message now l st =
     st\<lparr>emitted := emitted st @ [MessageReceived (strftime now @ '' :: '' @ l)]\<rparr>"

definition push :: "measurement \<Rightarrow> measurement list \<Rightarrow> measurement list" where
  \<comment> \<open>\<^verbatim>\<open>data.append(...)\<close>, line 126\<close>
  "push m d = d @ [m]"

fun push_all :: "measurement list \<Rightarrow> measurement list \<Rightarrow> measurement list" where
  \<comment> \<open>the list after the appends of successive turns of the loop\<close>
  "push_all d [] = d"
| "push_all d (m # ms) = push_all (push m d) ms"

fun csv_row :: "measurement \<Rightarrow> pyval list" where
  \<comment> \<open>the row of line 127\<close>
  "csv_row (timestamp, battery, solar, ultrasonic, rssi) =
     [PyStr (strftime timestamp), battery, solar, ultrasonic, rssi]"

definition accept :: "measurement \<Rightarrow> reader \<Rightarrow> error + reader" where
  \<comment> \<open>lines 126 to 128\<close>
  "accept m st =
     (let d = push m (data st)
      in case write_data_to_file (data_file st) [csv_row m] of
           Inl e \<Rightarrow> Inl e
         | Inr f' \<Rightarrow> Inr (st\<lparr>data := d, data_file := f', emitted := emitted st @ [DataUpdated d]\<rparr>))"

definition required_fields ::
  "(string \<rightharpoonup> pyval) \<Rightarrow> (pyval \<times> pyval \<times> pyval \<times> pyval) option" where
  \<comment> \<open>lines 119 to 124: the four \<^verbatim>\<open>get\<close>s and the test that none is \<^verbatim>\<open>None\<close>\<close>
  "required_fields parsed_data =
     (case parsed_data ''battery_voltage'' of None \<Rightarrow> None | Some battery \<Rightarrow>
      case parsed_data ''solar_voltage'' of None \<Rightarrow> None | Some solar \<Rightarrow>
      case parsed_data ''ultrasonic_range'' of None \<Rightarrow> None | Some ultrasonic \<Rightarrow>
      case parsed_data ''rssi'' of None \<Rightarrow> None | Some rssi \<Rightarrow>
        Some (battery, solar, ultrasonic, rssi))"

definition handle_frame :: "datetime \<Rightarrow> string \<Rightarrow> reader \<Rightarrow> error + reader" where
  \<comment> \<open>lines 118 to 128; \<open>now\<close> is the clock read at line 125\<close>
  "handle_frame now l st =
     (case parse_message l of
        Inl e \<Rightarrow> Inl e
      | Inr parsed_data \<Rightarrow>
          (case required_fields parsed_data of
             Some (battery, solar, ultrasonic, rssi) \<Rightarrow>
               accept (now, battery, solar, ultrasonic, rssi) st
           | None \<Rightarrow> Inr st))"

definition iteration :: "datetime \<Rightarrow> datetime \<Rightarrow> string \<Rightarrow> reader \<Rightarrow> error + reader" where
  \<comment> \<open>one turn of the loop of \<^verbatim>\<open>run\<close> on a decoded line, lines 114 to 128; the clock
      is read twice, at line 115 and at line 125\<close>
  "iteration now1 now2 l st =
     (let st1 = emit_message now1 l st
      in if prefilter_rejects l then Inr st1 else handle_frame now2 l st1)"

definition window_capacity :: nat where
  "window_capacity = 20000"

definition snapshot :: "measurement list \<Rightarrow> measurement list" where
  \<comment> \<open>\<^verbatim>\<open>self.data[-20000:]\<close>, line 253: the whole list when it is shorter\<close>
  "snapshot d =
     (if length d \<le> window_capacity then d else drop (length d - window_capacity) d)"

section \<open>Facts about the token scan\<close>



lemma minus_not_digit: "\<not> is_digit (CHR ''-'')"
  by (simp add: is_digit_def)


lemma takeWhile_run:
  "list_all P ds \<Longrightarrow> rest = [] \<or> \<not> P (hd rest) \<Longrightarrow> takeWhile P (ds @ rest) = ds"
  by (induction ds) (auto simp: takeWhile_eq_Nil_iff)

lemma dropWhile_run:
  "list_all P ds \<Longrightarrow> rest = [] \<or> \<not> P (hd rest) \<Longrightarrow> dropWhile P (ds @ rest) = rest"
  by (induction ds) (auto simp: dropWhile_eq_self_iff)

lemma match_number_token:
  assumes "sg = [] \<or> sg = ''-''" "ds \<noteq> []" "list_all is_digit ds"
    "rest = [] \<or> \<not> is_digit (hd rest)"
  shows "match_number (sg @ ds @ rest) = Some (sg @ ds, rest)"
proof (cases "sg = []")
  case True
  have "hd (ds @ rest) \<noteq> CHR ''-''"
    using assms(2,3) minus_not_digit by (cases ds) auto
  with True assms show ?thesis
    by (simp add: match_number_def takeWhile_run dropWhile_run)
next
  case False
  with assms have "sg = ''-''" by simp
  with assms show ?thesis
    by (simp add: match_number_def takeWhile_run dropWhile_run)
qed


lemma match_number_shape:
  assumes "match_number cs = Some (v, rest)"
  shows "cs = v @ rest \<and> (\<exists>sg ds. v = sg @ ds \<and> (sg = [] \<or> sg = ''-'') \<and> ds \<noteq> [] \<and> list_all is_digit ds)
     \<and> (rest = [] \<or> \<not> is_digit (hd rest))"
proof -
  define sg where "sg = (if cs \<noteq> [] \<and> hd cs = CHR ''-'' then ''-'' else [])"
  define body where "body = drop (length sg) cs"
  have cs: "cs = sg @ body"
    unfolding body_def sg_def by (cases cs) auto
  from assms have ne: "takeWhile is_digit body \<noteq> []"
    and v: "v = sg @ takeWhile is_digit body" and rest: "rest = dropWhile is_digit body"
    unfolding match_number_def Let_def sg_def [symmetric] body_def [symmetric]
    by (auto split: if_splits)
  have "list_all is_digit (takeWhile is_digit body)"
    by (simp add: list_all_iff) (meson set_takeWhileD)
  moreover have "rest = [] \<or> \<not> is_digit (hd rest)"
    unfolding rest by (metis hd_dropWhile)
  moreover have "cs = v @ rest" using cs v rest by simp
  moreover have "sg = [] \<or> sg = ''-''" by (simp add: sg_def)
  ultimately show ?thesis using ne v by blast
qed

lemma findall_sound:
  "(k, v) \<in> set (findall m) \<Longrightarrow>
   is_letter k \<and> (\<exists>pre post. m = pre @ k # v @ post) \<and>
   (\<exists>sg ds. v = sg @ ds \<and> (sg = [] \<or> sg = ''-'') \<and> ds \<noteq> [] \<and> list_all is_digit ds)"
proof (induction m rule: findall.induct)
  case 1
  then show ?case by simp
next
  case (2 c cs)
  show ?case
  proof (cases "is_letter c")
    case False
    with 2 have "(k, v) \<in> set (findall cs)" by simp
    with 2(3) False obtain pre post where "cs = pre @ k # v @ post" and r: "is_letter k"
      "\<exists>sg ds. v = sg @ ds \<and> (sg = [] \<or> sg = ''-'') \<and> ds \<noteq> [] \<and> list_all is_digit ds"
      by blast
    then have "c # cs = (c # pre) @ k # v @ post" by simp
    with r show ?thesis by blast
  next
    case True
    show ?thesis
    proof (cases "match_number cs")
      case None
      with 2 True have "(k, v) \<in> set (findall cs)" by simp
      with 2(1) True None obtain pre post where "cs = pre @ k # v @ post" and r: "is_letter k"
        "\<exists>sg ds. v = sg @ ds \<and> (sg = [] \<or> sg = ''-'') \<and> ds \<noteq> [] \<and> list_all is_digit ds"
        by blast
      then have "c # cs = (c # pre) @ k # v @ post" by simp
      with r show ?thesis by blast
    next
      case (Some p)
      obtain v' rest where p: "p = (v', rest)" by (cases p)
      note sh = match_number_shape [OF Some [unfolded p]]
      from 2(4) True Some p have "(k, v) = (c, v') \<or> (k, v) \<in> set (findall rest)" by simp
      then show ?thesis
      proof
        assume "(k, v) = (c, v')"
        then have "c # cs = [] @ k # v @ rest" using sh by simp
        with sh True \<open>(k, v) = (c, v')\<close> show ?thesis by blast
      next
        assume "(k, v) \<in> set (findall rest)"
        with 2(2) [OF True Some p [symmetric]] obtain pre post where
          "rest = pre @ k # v @ post" and r: "is_letter k"
          "\<exists>sg ds. v = sg @ ds \<and> (sg = [] \<or> sg = ''-'') \<and> ds \<noteq> [] \<and> list_all is_digit ds"
          by blast
        then have "c # cs = (c # v' @ pre) @ k # v @ post" using sh by simp
        with r show ?thesis by blast
      qed
    qed
  qed
qed

section \<open>Evaluation rules\<close>

lemmas scan_ev = is_letter_def is_digit_def match_number_def

lemmas text_ev = is_digit_def is_space_def digit_field_def day_field_def literal_def spaces_def
  scan_datetime_def strptime_def valid_datetime_def days_in_month_def is_leap_def
  nat_of_digits_def digit_val_def py_float_def cell_def float_cell_def decode_row_def Let_def

lemma decode_rows_fail:
  "r \<in> set rows \<Longrightarrow> decode_row r = Inl e \<Longrightarrow> \<exists>e'. decode_rows rows = Inl e'"
  by (induction rows) (auto split: sum.splits)

section \<open>The pre-filter of the loop\<close>

text \<open>
  Claim C3. The loop skips a decoded line, without scanning it for tokens, exactly when
  the line has fewer than 10 characters, or more than 40, or a first character other
  than \<^verbatim>\<open>S\<close>. A line of 10 to 40 characters that starts with \<^verbatim>\<open>S\<close> goes on to
  \<open>handle_frame\<close>, which scans it. A skipped line only adds its diagnostic message;
  \<open>parse_message\<close> has no part in the result.
\<close>

theorem prefilter_gate:
  "(prefilter_rejects l \<longleftrightarrow> length l < 10 \<or> length l > 40 \<or> take 1 l \<noteq> ''S'') \<and>
   iteration now1 now2 l st =
     (if length l < 10 \<or> length l > 40 \<or> take 1 l \<noteq> ''S''
      then Inr (emit_message now1 l st)
      else handle_frame now2 l (emit_message now1 l st))"
proof -
  have "prefilter_rejects l \<longleftrightarrow> length l < 10 \<or> length l > 40 \<or> take 1 l \<noteq> ''S''"
    by (cases l) (auto simp: prefilter_rejects_def)
  then show ?thesis by (simp add: iteration_def Let_def)
qed

theorem prefilter_gate_witness:
  "\<not> prefilter_rejects ''S1,V4106,C55,U841,s6835,r-58,n12'' \<and>
   prefilter_rejects ''S1,V4106'' \<and>
   prefilter_rejects ''V4106,C55,U841,s6835,r-58''"
  using prefilter_gate [of "''S1,V4106,C55,U841,s6835,r-58,n12''"]
    prefilter_gate [of "''S1,V4106''"] prefilter_gate [of "''V4106,C55,U841,s6835,r-58''"]
  by simp

section \<open>The token scan\<close>



section \<open>The plotted window\<close>

lemma push_all_append: "push_all d ms = d @ ms"
  by (induction ms arbitrary: d) (simp_all add: push_def)

text \<open>
  Claim C8, as stated, says that the window held in memory never has more than its
  capacity of entries, the oldest being evicted. The list \<open>data\<close> of the loop is only
  ever appended to: after 20001 measurements it holds 20001 entries, one more than
  \<open>window_capacity\<close>.
\<close>

theorem window_unbounded_counterexample:
  "length (push_all []
     (replicate 20001
        (\<lparr>year = 2024, month = 3, day = 2, hour = 3, minute = 4, second = 5, microsecond = 0\<rparr>,
         PyFloat (Dec 4106 3), PyFloat (Dec 6835 3), PyInt 841, PyInt (- 58)))) = 20001 \<and>
   window_capacity < 20001"
  by (simp only: push_all_append length_append length_replicate list.size window_capacity_def)
    simp

text \<open>
  Claim C8, amended. The list of measurements itself keeps every entry, but what the
  plot takes from it, \<open>snapshot\<close>, never has more than \<open>window_capacity\<close> = 20000
  entries, and after \<open>window_capacity + k\<close> measurements have been pushed it is exactly
  the last 20000 of them, in the order of their arrival: the \<open>k\<close> oldest of them, and
  all that was in the list before, are left out of the snapshot.
\<close>

theorem snapshot_last_capacity:
  "length (snapshot d) \<le> window_capacity \<and>
   (length ms = window_capacity + k \<longrightarrow> snapshot (push_all d ms) = drop k ms)"
  by (auto simp: snapshot_def push_all_append)

theorem snapshot_last_capacity_witness:
  "length (map (\<lambda>i. (\<lparr>year = 2024, month = 1, day = 2, hour = 3, minute = 4, second = 5,
        microsecond = 0\<rparr>, PyFloat (Dec 4 0), PyFloat (Dec 6 0), PyInt (int i), PyInt (- 58)))
      [0..<20002]) = window_capacity + 2 \<and>
   snapshot (push_all []
     (map (\<lambda>i. (\<lparr>year = 2024, month = 1, day = 2, hour = 3, minute = 4, second = 5,
        microsecond = 0\<rparr>, PyFloat (Dec 4 0), PyFloat (Dec 6 0), PyInt (int i), PyInt (- 58)))
      [0..<20002])) =
   map (\<lambda>i. (\<lparr>year = 2024, month = 1, day = 2, hour = 3, minute = 4, second = 5,
        microsecond = 0\<rparr>, PyFloat (Dec 4 0), PyFloat (Dec 6 0), PyInt (int i), PyInt (- 58)))
      [2..<20002]"
proof -
  have d: "drop 2 (map g [0..<20002]) = map g [2..<20002]" for g :: "nat \<Rightarrow> measurement"
    by (simp only: drop_map drop_upt add_0)
  have l: "length (map g [0..<20002]) = window_capacity + 2" for g :: "nat \<Rightarrow> measurement"
    by (simp add: window_capacity_def del: upt_rec_numeral)
  show ?thesis
    using snapshot_last_capacity [of "[]" "map (\<lambda>i. (\<lparr>year = 2024, month = 1, day = 2,
        hour = 3, minute = 4, second = 5, microsecond = 0\<rparr>, PyFloat (Dec 4 0),
        PyFloat (Dec 6 0), PyInt (int i), PyInt (- 58))) [0..<20002]" 2]
    by (simp only: l d simp_thms)
qed

section \<open>Failures of the data file\<close>




text \<open>
  Claim C7, as stated, says that a store with a row that does not decode is told apart
  from a store that is absent or empty. \<open>read_data_from_file\<close> returns the empty list in
  all three cases: a file whose data row has \<^verbatim>\<open>abc\<close> for the battery voltage gives the
  same result as no file.
\<close>

theorem load_corrupt_counterexample:
  "decode_row [''2024-01-02 03:04:05'', ''abc'', ''6.835'', ''841'', ''-58''] = Inl ValueError \<and>
   read_data_from_file \<lparr>node = RegularFile [[''Timestamp'', ''Battery Voltage (V)'',
       ''Solar Voltage (V)'', ''Ultrasonic Range'', ''RSSI''],
       [''2024-01-02 03:04:05'', ''abc'', ''6.835'', ''841'', ''-58'']],
       readable = True, writable = True\<rparr> =
   read_data_from_file \<lparr>node = NoEntry, readable = True, writable = True\<rparr>"
proof -
  have d: "decode_row [''2024-01-02 03:04:05'', ''abc'', ''6.835'', ''841'', ''-58''] = Inl ValueError"
    by (simp add: text_ev)
  then show ?thesis
    by (simp add: read_data_from_file_def read_body_def)
qed

text \<open>
  Claim C7, amended. \<open>read_data_from_file\<close> never raises. It returns the empty list
  when the file is absent, when the file is empty or has its header only, and also when
  some row after the header does not decode: the caller cannot tell these apart.
\<close>

theorem load_failures_indistinguishable:
  "(\<exists>ms. read_data_from_file f = Inr ms) \<and>
   (node f = NoEntry \<longrightarrow> read_data_from_file f = Inr []) \<and>
   (node f = RegularFile [] \<longrightarrow> read_data_from_file f = Inr []) \<and>
   (node f = RegularFile [header] \<longrightarrow> read_data_from_file f = Inr []) \<and>
   (node f = RegularFile (header # rows) \<and> r \<in> set rows \<and> decode_row r = Inl e \<longrightarrow>
      read_data_from_file f = Inr [])"
proof (intro conjI impI)
  show "read_data_from_file f = Inr []" if "node f = RegularFile [header]"
    using that by (simp add: read_data_from_file_def read_body_def)
  show "\<exists>ms. read_data_from_file f = Inr ms"
    by (auto simp: read_data_from_file_def split: sum.splits option.splits)
  show "read_data_from_file f = Inr []" if "node f = NoEntry"
    using that by (simp add: read_data_from_file_def read_body_def)
  show "read_data_from_file f = Inr []" if "node f = RegularFile []"
    using that by (simp add: read_data_from_file_def read_body_def)
  show "read_data_from_file f = Inr []"
    if "node f = RegularFile (header # rows) \<and> r \<in> set rows \<and> decode_row r = Inl e"
  proof -
    from that obtain e' where "decode_rows rows = Inl e'"
      using decode_rows_fail by blast
    with that show ?thesis
      by (simp add: read_data_from_file_def read_body_def)
  qed
qed

theorem load_failures_indistinguishable_witness:
  "read_data_from_file \<lparr>node = RegularFile [[''Timestamp''], [''x'']], readable = True,
      writable = True\<rparr> = Inr []"
  using load_failures_indistinguishable [of "\<lparr>node = RegularFile [[''Timestamp''], [''x'']],
      readable = True, writable = True\<rparr>" "[''Timestamp'']" "[[''x'']]" "[''x'']" ValueError]
  by (simp add: text_ev)

section \<open>Facts about numerals and \<^verbatim>\<open>parse_message\<close>\<close>


lemma nat_of_digits_Nil: "nat_of_digits [] = 0"
  by (simp add: nat_of_digits_def)

lemma nat_of_digits_snoc: "nat_of_digits (ds @ [c]) = 10 * nat_of_digits ds + digit_val c"
  by (simp add: nat_of_digits_def)


lemma digit_val_le: "is_digit c \<Longrightarrow> digit_val c \<le> 9"
  by (auto simp: is_digit_def digit_val_def)

lemma nat_of_digits_less: "list_all is_digit ds \<Longrightarrow> nat_of_digits ds < 10 ^ length ds"
proof (induction ds rule: rev_induct)
  case Nil
  then show ?case by (simp add: nat_of_digits_Nil)
next
  case (snoc c ds)
  then have "nat_of_digits ds + 1 \<le> 10 ^ length ds" and "digit_val c \<le> 9"
    by (auto dest: digit_val_le)
  then have "10 * nat_of_digits ds + digit_val c < 10 * 10 ^ length ds"
    by linarith
  then show ?case by (simp add: nat_of_digits_snoc)
qed

lemma py_int_token:
  assumes "sg = [] \<or> sg = ''-''" "ds \<noteq> []" "list_all is_digit ds"
    "length ds \<le> int_max_str_digits"
  shows "py_int (sg @ ds) =
    Inr (if sg = [] then int (nat_of_digits ds) else - int (nat_of_digits ds))"
proof (cases "sg = []")
  case True
  have "hd ds \<noteq> CHR ''-''"
    using assms(2,3) minus_not_digit by (cases ds) auto
  with True assms show ?thesis by (simp add: py_int_def)
next
  case False
  with assms have "sg = ''-''" by simp
  with assms show ?thesis by (simp add: py_int_def)
qed

lemma small_below_overflow: "(10::int) ^ 308 < float_overflow_bound"
  by (simp add: float_overflow_bound_def)


lemma convert_token:
  assumes "sg = [] \<or> sg = ''-''" "ds \<noteq> []" "list_all is_digit ds" "length ds \<le> 308"
  shows "\<exists>x. convert k (sg @ ds) = Inr x"
proof -
  let ?n = "if sg = [] then int (nat_of_digits ds) else - int (nat_of_digits ds)"
  have p: "py_int (sg @ ds) = Inr ?n"
    using assms by (intro py_int_token) (auto simp: int_max_str_digits_def)
  have "nat_of_digits ds < 10 ^ length ds"
    using assms(3) by (rule nat_of_digits_less)
  also have "(10::nat) ^ length ds \<le> 10 ^ 308"
    using assms(4) by (intro power_increasing) auto
  finally have "int (nat_of_digits ds) < 10 ^ 308"
    by (metis of_nat_less_iff of_nat_numeral of_nat_power)
  then have "\<bar>?n\<bar> < float_overflow_bound"
    using small_below_overflow by auto
  then show ?thesis
    unfolding convert_def p by (auto simp: truediv_1000_def)
qed

lemma store_matches_total:
  "(\<And>k v. (k, v) \<in> set ms \<Longrightarrow> field_map k \<noteq> None \<Longrightarrow> \<exists>x. convert k v = Inr x) \<Longrightarrow>
   \<exists>d. store_matches ms d0 = Inr d"
proof (induction ms arbitrary: d0)
  case Nil
  then show ?case by simp
next
  case (Cons p ms)
  obtain k v where p: "p = (k, v)" by (cases p)
  have ih: "\<exists>d. store_matches ms d1 = Inr d" for d1
    by (rule Cons.IH) (auto intro: Cons.prems)
  show ?case
  proof (cases "field_map k")
    case None
    with ih p show ?thesis by simp
  next
    case (Some name)
    with Cons.prems [of k v] p obtain x where "convert k v = Inr x" by auto
    with ih Some p show ?thesis by simp
  qed
qed

lemma findall_value_length: "(k, v) \<in> set (findall m) \<Longrightarrow> length v < length m"
  using findall_sound [of k v m] by auto

lemma parse_message_total:
  assumes h: "\<forall>(k, v) \<in> set (findall m). field_map k \<noteq> None \<longrightarrow> length v \<le> 308"
  shows "\<exists>d. parse_message m = Inr d"
  unfolding parse_message_def
proof (rule store_matches_total)
  fix k v
  assume kv: "(k, v) \<in> set (findall m)" and f: "field_map k \<noteq> None"
  from findall_sound [OF kv] obtain sg ds where
    v: "v = sg @ ds" "sg = [] \<or> sg = ''-''" "ds \<noteq> []" "list_all is_digit ds"
    by blast
  from h kv f have "length v \<le> 308" by auto
  with v have "length ds \<le> 308" by simp
  with v show "\<exists>x. convert k v = Inr x"
    by (auto intro: convert_token)
qed

lemma parse_message_total_short:
  "length m \<le> 309 \<Longrightarrow> \<exists>d. parse_message m = Inr d"
  by (rule parse_message_total) (auto dest: findall_value_length)

lemma nat_of_digits_nines: "nat_of_digits (replicate n (CHR ''9'')) = 10 ^ n - 1"
proof (induction n)
  case 0
  then show ?case by (simp add: nat_of_digits_Nil)
next
  case (Suc n)
  have "replicate (Suc n) (CHR ''9'') = replicate n (CHR ''9'') @ [CHR ''9'']"
    by (simp add: replicate_append_same)
  then have "nat_of_digits (replicate (Suc n) (CHR ''9'')) = 10 * (10 ^ n - 1) + 9"
    by (simp only: nat_of_digits_snoc Suc) (simp add: digit_val_def)
  also have "\<dots> = 10 ^ Suc n - 1"
    by (simp add: algebra_simps)
  finally show ?case .
qed

lemma field_map_inj: "field_map k = Some name \<Longrightarrow> field_map k' = Some name \<Longrightarrow> k = k'"
  by (auto simp: field_map_def split: if_splits)

lemma store_matches_lookup:
  "store_matches ms d0 = Inr d \<Longrightarrow> field_map k = Some name \<Longrightarrow>
   d name = (case map_of (rev ms) k of
               None \<Rightarrow> d0 name
             | Some v \<Rightarrow> (case convert k v of Inl e \<Rightarrow> None | Inr x \<Rightarrow> Some x))"
proof (induction ms arbitrary: d0)
  case Nil
  then show ?case by simp
next
  case (Cons p ms)
  obtain k' v' where p: "p = (k', v')" by (cases p)
  have m: "map_of (rev (p # ms)) k =
      (case map_of (rev ms) k of Some v \<Rightarrow> Some v | None \<Rightarrow> if k = k' then Some v' else None)"
    by (simp add: p map_of_append map_add_def split: option.splits)
  show ?case
  proof (cases "field_map k'")
    case None
    with Cons.prems p have s: "store_matches ms d0 = Inr d" and ne: "k \<noteq> k'" by auto
    show ?thesis
      unfolding m using Cons.IH [OF s Cons.prems(2)] ne by (simp split: option.splits)
  next
    case (Some name')
    with Cons.prems p obtain x where c: "convert k' v' = Inr x"
      and s: "store_matches ms (d0(name' \<mapsto> x)) = Inr d"
      by (auto split: sum.splits)
    have eq: "name = name' \<longleftrightarrow> k = k'"
      using Some Cons.prems(2) field_map_inj by auto
    show ?thesis
      unfolding m using Cons.IH [OF s Cons.prems(2)] eq c by (auto split: option.splits)
  qed
qed

lemma store_matches_other:
  "store_matches ms d0 = Inr d \<Longrightarrow> (\<And>k. field_map k \<noteq> Some name) \<Longrightarrow> d name = d0 name"
proof (induction ms arbitrary: d0)
  case Nil
  then show ?case by simp
next
  case (Cons p ms)
  obtain k' v' where p: "p = (k', v')" by (cases p)
  show ?case
  proof (cases "field_map k'")
    case None
    with Cons p show ?thesis by auto
  next
    case (Some name')
    with Cons.prems p obtain x where s: "store_matches ms (d0(name' \<mapsto> x)) = Inr d"
      by (auto split: sum.splits)
    have "name \<noteq> name'" using Some Cons.prems(2) by auto
    with Cons.IH [OF s Cons.prems(2)] show ?thesis by simp
  qed
qed

lemma store_matches_converts:
  "store_matches ms d0 = Inr d \<Longrightarrow> (k, v) \<in> set ms \<Longrightarrow> field_map k \<noteq> None \<Longrightarrow>
   \<exists>x. convert k v = Inr x"
proof (induction ms arbitrary: d0)
  case Nil
  then show ?case by simp
next
  case (Cons p ms)
  obtain k' v' where p: "p = (k', v')" by (cases p)
  show ?case
  proof (cases "field_map k'")
    case None
    with Cons p show ?thesis by auto
  next
    case (Some name')
    with Cons.prems p obtain x where c: "convert k' v' = Inr x"
      and s: "store_matches ms (d0(name' \<mapsto> x)) = Inr d"
      by (auto split: sum.splits)
    from Cons.prems(2) p have "(k, v) = (k', v') \<or> (k, v) \<in> set ms" by auto
    then show ?thesis
      using c Cons.IH [OF s _ Cons.prems(3)] by auto
  qed
qed

lemma map_of_last_occurrence:
  "k \<notin> fst ` set post \<Longrightarrow> map_of (rev (pre @ (k, v) # post)) k = Some v"
  by (simp add: map_of_append map_add_def map_of_eq_None_iff [THEN iffD2] split: option.splits)


section \<open>Totality of \<^verbatim>\<open>parse_message\<close>\<close>

text \<open>
  Claim C9, as stated, says that \<open>parse_message\<close> returns a mapping for every input
  string. The scan always ends, but the conversion can raise: on \<^verbatim>\<open>V\<close> followed
  by 309 nines, \<^verbatim>\<open>int(value) / 1000.0\<close> raises \<open>OverflowError\<close>, because the integer
  is too large to be converted to a float.
\<close>

theorem parse_overflow_counterexample:
  "parse_message (CHR ''V'' # replicate 309 (CHR ''9'')) = Inl OverflowError"
proof -
  have d: "list_all is_digit (replicate 309 (CHR ''9''))"
    by (simp add: list_all_iff is_digit_def)
  have "match_number ([] @ replicate 309 (CHR ''9'') @ []) = Some ([] @ replicate 309 (CHR ''9''), [])"
    using d by (intro match_number_token) auto
  then have f: "findall (CHR ''V'' # replicate 309 (CHR ''9'')) = [(CHR ''V'', replicate 309 (CHR ''9''))]"
    by (simp add: is_letter_def)
  have "py_int ([] @ replicate 309 (CHR ''9'')) = Inr (int (nat_of_digits (replicate 309 (CHR ''9''))))"
    using d by (subst py_int_token) (auto simp: int_max_str_digits_def)
  then have p: "py_int (replicate 309 (CHR ''9'')) = Inr (10 ^ 309 - 1)"
    by (simp add: nat_of_digits_nines of_nat_diff)
  have "convert (CHR ''V'') (replicate 309 (CHR ''9'')) = Inl OverflowError"
    unfolding convert_def p by (simp add: truediv_1000_def float_overflow_bound_def)
  then show ?thesis
    unfolding parse_message_def f by (simp add: field_map_def)
qed

text \<open>
  Claim C9, amended. \<open>parse_message\<close> ends on every input string, and it returns a
  mapping without raising whenever the number text of each recognized token has at most
  308 characters; in particular on every input of at most 309 characters, the empty
  string and texts without tokens included, so on every line that passes the
  pre-filter of the loop.
\<close>

theorem parse_total_on_small_numbers:
  "((\<forall>(k, v) \<in> set (findall m). field_map k \<noteq> None \<longrightarrow> length v \<le> 308) \<longrightarrow>
      (\<exists>d. parse_message m = Inr d)) \<and>
   (length m \<le> 309 \<longrightarrow> (\<exists>d. parse_message m = Inr d))"
  using parse_message_total [of m] parse_message_total_short [of m] by blast

theorem parse_total_on_small_numbers_witness:
  "\<exists>d. parse_message ''S1,V4106,C55,U841,s6835,r-58,n12'' = Inr d"
  using parse_total_on_small_numbers [of "''S1,V4106,C55,U841,s6835,r-58,n12''"]
  by simp

section \<open>The values that \<^verbatim>\<open>parse_message\<close> records\<close>

lemmas parse_ev = field_map_def convert_def py_int_def nat_of_digits_def digit_val_def
  int_max_str_digits_def truediv_1000_def float_overflow_bound_def parse_message_def Let_def

lemma norm_dec_3:
  "norm_dec m 3 =
     (if m mod 10 = 0 then
        if m div 10 mod 10 = 0 then
          if m div 10 div 10 mod 10 = 0 then Dec (m div 10 div 10 div 10) 0
          else Dec (m div 10 div 10) 1
        else Dec (m div 10) 2
      else Dec m 3)"
  by (simp add: eval_nat_numeral)



lemma parse_message_last:
  assumes p: "parse_message m = Inr d" and f: "findall m = pre @ (k, v) # post"
    and l: "k \<notin> fst ` set post" and n: "field_map k = Some name"
  shows "\<exists>x. convert k v = Inr x \<and> d name = Some x"
proof -
  from p have s: "store_matches (findall m) Map.empty = Inr d"
    by (simp add: parse_message_def)
  have "(k, v) \<in> set (findall m)" by (simp add: f)
  from store_matches_converts [OF s this] n obtain x where x: "convert k v = Inr x"
    by auto
  have "map_of (rev (findall m)) k = Some v"
    unfolding f using l by (rule map_of_last_occurrence)
  with store_matches_lookup [OF s n] x show ?thesis by simp
qed

lemma parse_message_absent:
  assumes p: "parse_message m = Inr d" and a: "k \<notin> fst ` set (findall m)"
    and n: "field_map k = Some name"
  shows "d name = None"
proof -
  from p have s: "store_matches (findall m) Map.empty = Inr d"
    by (simp add: parse_message_def)
  from a have "map_of (rev (findall m)) k = None"
    by (simp add: map_of_eq_None_iff)
  with store_matches_lookup [OF s n] show ?thesis by simp
qed




section \<open>Order and repetition of tokens\<close>

lemma store_matches_success_iff:
  "(\<exists>d. store_matches ms d0 = Inr d) \<longleftrightarrow>
   (\<forall>(k, v) \<in> set ms. field_map k \<noteq> None \<longrightarrow> (\<exists>x. convert k v = Inr x))"
proof
  assume "\<exists>d. store_matches ms d0 = Inr d"
  then show "\<forall>(k, v) \<in> set ms. field_map k \<noteq> None \<longrightarrow> (\<exists>x. convert k v = Inr x)"
    using store_matches_converts by blast
next
  assume "\<forall>(k, v) \<in> set ms. field_map k \<noteq> None \<longrightarrow> (\<exists>x. convert k v = Inr x)"
  then show "\<exists>d. store_matches ms d0 = Inr d"
    by (intro store_matches_total) auto
qed

lemma store_matches_order:
  assumes s1: "store_matches ms1 Map.empty = Inr d1"
    and e: "set ms1 = set ms2"
    and d: "distinct (map fst ms1)" "distinct (map fst ms2)"
  shows "store_matches ms2 Map.empty = Inr d1"
proof -
  have "\<exists>d. store_matches ms1 Map.empty = Inr d" using s1 by blast
  then have "\<exists>d. store_matches ms2 Map.empty = Inr d"
    unfolding store_matches_success_iff e .
  then obtain d2 where s2: "store_matches ms2 Map.empty = Inr d2" ..
  have m: "map_of (rev ms1) = map_of (rev ms2)"
    using e d by (subst map_of_inject_set) (auto simp: rev_map [symmetric])
  have "d2 name = d1 name" for name
  proof (cases "\<exists>k. field_map k = Some name")
    case True
    then obtain k where k: "field_map k = Some name" ..
    show ?thesis
      using store_matches_lookup [OF s1 k] store_matches_lookup [OF s2 k] m by simp
  next
    case False
    then have "\<And>k. field_map k \<noteq> Some name" by blast
    from store_matches_other [OF s1 this] store_matches_other [OF s2 this]
    show ?thesis by simp
  qed
  then have "d2 = d1" by (rule ext)
  with s2 show ?thesis by simp
qed

lemma findall_dup: "findall ''V1,V2'' = [(CHR ''V'', ''1''), (CHR ''V'', ''2'')]"
  by (simp add: scan_ev)

lemma findall_fwd: "findall ''U841,r-58'' = [(CHR ''U'', ''841''), (CHR ''r'', ''-58'')]"
  by (simp add: scan_ev)

lemma findall_bwd: "findall ''r-58,U841'' = [(CHR ''r'', ''-58''), (CHR ''U'', ''841'')]"
  by (simp add: scan_ev)

text \<open>
  Claim C5. The parser returns a mapping on every text of at most 309 characters. When
  a recognized letter occurs more than once, the value recorded for its
  field is that of the last occurrence: if the scan finds the token \<open>(k, v)\<close> and no
  later token has the letter \<open>k\<close>, the mapping holds the converted \<open>v\<close>. The order of
  the tokens does not matter for the result: two texts in which the scan finds the same
  tokens, each letter once, in whatever order, are parsed to the same mapping.
\<close>

theorem last_occurrence_wins:
  "(length m \<le> 309 \<longrightarrow> (\<exists>d. parse_message m = Inr d)) \<and>
   (parse_message m = Inr d \<and> findall m = pre @ (k, v) # post \<and> k \<notin> fst ` set post \<and>
    field_map k = Some name \<longrightarrow> (\<exists>x. convert k v = Inr x \<and> d name = Some x)) \<and>
   (parse_message m1 = Inr d1 \<and> set (findall m1) = set (findall m2) \<and>
    distinct (map fst (findall m1)) \<and> distinct (map fst (findall m2)) \<longrightarrow>
      parse_message m2 = Inr d1)"
  using parse_message_last [of m d pre k v post name] parse_message_total_short [of m]
    store_matches_order [of "findall m1" d1 "findall m2"]
  unfolding parse_message_def by blast

theorem last_occurrence_wins_witness:
  "(\<exists>d. parse_message ''V1,V2'' = Inr d) \<and>
   (\<exists>x. convert (CHR ''V'') ''2'' = Inr x \<and>
      [''battery_voltage'' \<mapsto> PyFloat (Dec 2 3)] ''battery_voltage'' = Some x) \<and>
   parse_message ''r-58,U841'' =
     Inr [''ultrasonic_range'' \<mapsto> PyInt 841, ''rssi'' \<mapsto> PyInt (- 58)]"
proof -
  have p1: "parse_message ''V1,V2'' = Inr [''battery_voltage'' \<mapsto> PyFloat (Dec 2 3)]"
    unfolding parse_message_def findall_dup
    by (simp add: parse_ev is_digit_def norm_dec_3)
  have p2: "parse_message ''U841,r-58'' =
      Inr [''ultrasonic_range'' \<mapsto> PyInt 841, ''rssi'' \<mapsto> PyInt (- 58)]"
    unfolding parse_message_def findall_fwd
    by (simp add: parse_ev is_digit_def)
  have f: "findall ''V1,V2'' = [(CHR ''V'', ''1'')] @ (CHR ''V'', ''2'') # []"
    unfolding findall_dup by simp
  have l: "CHR ''V'' \<notin> fst ` set ([] :: (char \<times> string) list)"
    by simp
  have n: "field_map (CHR ''V'') = Some ''battery_voltage''"
    by (simp add: field_map_def)
  have s: "set (findall ''U841,r-58'') = set (findall ''r-58,U841'')"
    unfolding findall_fwd findall_bwd by auto
  have d: "distinct (map fst (findall ''U841,r-58''))" "distinct (map fst (findall ''r-58,U841''))"
    unfolding findall_fwd findall_bwd by simp_all
  note w = last_occurrence_wins [of "''V1,V2''" "[''battery_voltage'' \<mapsto> PyFloat (Dec 2 3)]"
        "[(CHR ''V'', ''1'')]" "CHR ''V''" "''2''" "[]" "''battery_voltage''" "''U841,r-58''"
        "[''ultrasonic_range'' \<mapsto> PyInt 841, ''rssi'' \<mapsto> PyInt (- 58)]" "''r-58,U841''"]
  from w p1 f l n have a: "\<exists>x. convert (CHR ''V'') ''2'' = Inr x \<and>
      [''battery_voltage'' \<mapsto> PyFloat (Dec 2 3)] ''battery_voltage'' = Some x"
    by blast
  from w p2 s d have b: "parse_message ''r-58,U841'' =
      Inr [''ultrasonic_range'' \<mapsto> PyInt 841, ''rssi'' \<mapsto> PyInt (- 58)]"
    by blast
  have "length ''V1,V2'' \<le> 309" by simp
  with w have c: "\<exists>d. parse_message ''V1,V2'' = Inr d"
    by blast
  from c a b show ?thesis by blast
qed

section \<open>One turn of the reading loop\<close>









section \<open>Reading back what was written\<close>















































section \<open>The data file as a store\<close>




end
